theory Spec2Isabelle
  imports Main "HOL-Library.Word" "HOL-Library.Sublist"
begin

section \<open>Strings, as the Python built-ins treat them\<close>

text \<open>
  The manifest is a Python \<open>str\<close>, modelled as a \<open>string\<close> whose characters are the
  code points below 256. A file of the file system either decodes, to the characters
  given, or it does not. The exceptions modelled are the missing file, the file that does
  not decode, and the console that cannot encode the check mark of the last line.
\<close>

datatype error = FileNotFoundError | UnicodeDecodeError | UnicodeEncodeError

datatype file_data = Text string | Undecodable

type_synonym fs = "string \<rightharpoonup> file_data"

text \<open>
  \<open>open(path, 'r')\<close> reads in text mode with universal newlines: CR LF and a CR alone
  are read as LF.
\<close>

fun universal_newlines :: "string \<Rightarrow> string" where
  "universal_newlines [] = []"
| "universal_newlines [c] = [if c = CHR 0x0D then CHR 0x0A else c]"
| "universal_newlines (c # d # s) =
     (if c = CHR 0x0D
      then (if d = CHR 0x0A then CHR 0x0A # universal_newlines s
            else CHR 0x0A # universal_newlines (d # s))
      else c # universal_newlines (d # s))"

text \<open>
  \<open>open(path, 'w')\<close> writes in text mode: every LF is written as \<open>os.linesep\<close>, which
  is LF on the systems where Xcode projects live.
\<close>

definition os_linesep :: string where
  "os_linesep = [CHR 0x0A]"

definition write_newlines :: "string \<Rightarrow> string" where
  "write_newlines s = concat (map (\<lambda>c. if c = CHR 0x0A then os_linesep else [c]) s)"

text \<open>\<open>str.upper\<close> on the ASCII letters.\<close>

definition upper_char :: "char \<Rightarrow> char" where
  "upper_char c =
     (if (97::nat) \<le> of_char c \<and> of_char c \<le> (122::nat)
      then char_of (of_char c - (32::nat)) else c)"

text \<open>\<open>str.isspace\<close> on the code points below 256, as \<open>str.rstrip()\<close> uses it.\<close>

definition isspace :: "char \<Rightarrow> bool" where
  "isspace c = (of_char c \<in> {9::nat, 10, 11, 12, 13, 28, 29, 30, 31, 32, 133, 160})"

definition rstrip :: "string \<Rightarrow> string" where
  "rstrip s = rev (dropWhile isspace (rev s))"

text \<open>
  \<open>re.search\<close> of a pattern that is one literal (every metacharacter escaped): the start
  of the leftmost occurrence.
\<close>

fun find_lit :: "string \<Rightarrow> string \<Rightarrow> nat option" where
  "find_lit pat [] = (if pat = [] then Some 0 else None)"
| "find_lit pat (x # xs) =
     (if prefix pat (x # xs) then Some 0 else map_option Suc (find_lit pat xs))"

text \<open>\<open>content[:insert_pos] + entries + content[insert_pos:]\<close>\<close>

definition insert_at :: "string \<Rightarrow> nat \<Rightarrow> string \<Rightarrow> string" where
  "insert_at content insert_pos entries = take insert_pos content @ entries @ drop insert_pos content"

text \<open>
  \<open>str.replace(old, new)\<close>: the non-overlapping occurrences of \<open>old\<close>, found from the
  left, are all replaced; an empty \<open>old\<close> matches before every character and at the end.
\<close>

fun replace_all :: "string \<Rightarrow> string \<Rightarrow> string \<Rightarrow> string" where
  "replace_all old new [] = (if old = [] then new else [])"
| "replace_all old new (x # xs) =
     (if old = [] then new @ x # replace_all old new xs
      else if prefix old (x # xs)
        then new @ replace_all old new (drop (length old) (x # xs))
        else x # replace_all old new xs)"

section \<open>The two listing patterns\<close>

text \<open>
  Both regular expressions have the shape
  \<^verbatim>\<open>ID /\* LABEL \*/ = \{[^}]+KEY = \([^)]+\);\<close>
  where \<open>ID\<close> is \<^verbatim>\<open>[A-F0-9]{24}\<close> in the first search and the identifier found by it,
  as a literal, in the second. The matcher follows the backtracking engine: a greedy
  \<open>+\<close> takes the longest run first and gives characters back one at a time, down to one.
\<close>

definition hexU :: "char \<Rightarrow> bool" where
  "hexU c = (c \<in> set ''ABCDEF0123456789'')"

text \<open>\<^verbatim>\<open>[^)]+\);\<close> with \<open>m\<close> characters still on offer to the greedy class.\<close>

fun close_bt :: "string \<Rightarrow> nat \<Rightarrow> string option" where
  "close_bt t 0 = None"
| "close_bt t (Suc m) =
     (if prefix '');'' (drop (Suc m) t) then Some (take (Suc m) t) else close_bt t m)"

text \<open>\<^verbatim>\<open>KEY = \(([^)]+)\);\<close> at the head of \<open>s\<close>; the result is the group.\<close>

definition match_list :: "string \<Rightarrow> string \<Rightarrow> string option" where
  "match_list key s =
     (if prefix (key @ '' = ('') s
      then let t = drop (length (key @ '' = ('')) s
           in close_bt t (length (takeWhile (\<lambda>c. c \<noteq> CHR '')'') t))
      else None)"

text \<open>\<^verbatim>\<open>[^}]+KEY = \(([^)]+)\);\<close> with \<open>k\<close> characters still on offer to \<^verbatim>\<open>[^}]+\<close>.\<close>

fun body_bt :: "string \<Rightarrow> string \<Rightarrow> nat \<Rightarrow> string option" where
  "body_bt key s 0 = None"
| "body_bt key s (Suc k) =
     (case match_list key (drop (Suc k) s) of
        Some g \<Rightarrow> Some g
      | None \<Rightarrow> body_bt key s k)"

text \<open>The whole pattern at the head of \<open>s\<close>; the result is (group 1, group 2).\<close>

definition match_here :: "(string \<Rightarrow> bool) \<Rightarrow> string \<Rightarrow> string \<Rightarrow> string \<Rightarrow> (string \<times> string) option" where
  "match_here idp label key s =
     (let i = take 24 s; lit = '' /* '' @ label @ '' */ = {'' in
      if length i = 24 \<and> idp i \<and> prefix lit (drop 24 s)
      then let b = drop (24 + length lit) s
           in map_option (\<lambda>g. (i, g))
                (body_bt key b (length (takeWhile (\<lambda>c. c \<noteq> CHR ''}'') b)))
      else None)"

text \<open>\<open>re.search\<close>: the first start position, from the left, at which the pattern matches.\<close>

fun search_listing :: "(string \<Rightarrow> bool) \<Rightarrow> string \<Rightarrow> string \<Rightarrow> string \<Rightarrow> (string \<times> string) option" where
  "search_listing idp label key [] = None"
| "search_listing idp label key (x # xs) =
     (case match_here idp label key (x # xs) of
        Some m \<Rightarrow> Some m
      | None \<Rightarrow> search_listing idp label key xs)"

text \<open>The identifier of the first search: every one of its 24 characters is in \<^verbatim>\<open>[A-F0-9]\<close>.\<close>

definition any_id :: "string \<Rightarrow> bool" where
  "any_id i = list_all hexU i"

text \<open>
  How often, and where, a text occurs in another (overlapping occurrences included), and
  \<open>sep.join(pieces)\<close>; both are used to state what \<open>str.replace\<close> rewrites.
\<close>

definition occurrences :: "string \<Rightarrow> string \<Rightarrow> nat list" where
  "occurrences pat s = filter (\<lambda>i. prefix pat (drop i s)) [0..<Suc (length s)]"

fun join :: "string \<Rightarrow> string list \<Rightarrow> string" where
  "join sep [] = []"
| "join sep [p] = p"
| "join sep (p # q # ps) = p @ sep @ join sep (q # ps)"

text \<open>
  \<open>s.split(sep)\<close> for a separator that is not empty: the pieces between the occurrences
  that \<open>str.replace\<close> finds. (Python raises on an empty separator; here the text is
  then one piece.)
\<close>

fun split_on :: "string \<Rightarrow> string \<Rightarrow> string list" where
  "split_on sep [] = [[]]"
| "split_on sep (x # xs) =
     (if sep \<noteq> [] \<and> prefix sep (x # xs)
      then [] # split_on sep (drop (length sep) (x # xs))
      else (case split_on sep xs of [] \<Rightarrow> [[x]] | p # ps \<Rightarrow> (x # p) # ps))"

section \<open>Identifiers\<close>

text \<open>
  \<open>uuid.uuid4()\<close> draws a 128-bit number; \<open>.hex\<close> prints it as 32 lowercase hexadecimal
  digits. The draw is an argument of the model.
\<close>

definition hexdigit :: "nat \<Rightarrow> char" where
  "hexdigit n = ''0123456789abcdef'' ! (n mod 16)"

definition uuid_hex :: "128 word \<Rightarrow> string" where
  "uuid_hex w = map (\<lambda>k. hexdigit (unat (drop_bit (4 * k) w))) (rev [0..<32])"

definition generate_xcode_uuid :: "128 word \<Rightarrow> string" where
  "generate_xcode_uuid w = take 24 (map upper_char (uuid_hex w))"

record uuids =
  view_file_ref_uuid :: string
  viewmodel_file_ref_uuid :: string
  view_build_file_uuid :: string
  viewmodel_build_file_uuid :: string
  group_uuid :: string

text \<open>The five calls of \<open>generate_xcode_uuid\<close>, in the order of the source.\<close>

definition generate_uuids :: "128 word \<Rightarrow> 128 word \<Rightarrow> 128 word \<Rightarrow> 128 word \<Rightarrow> 128 word \<Rightarrow> uuids" where
  "generate_uuids r1 r2 r3 r4 r5 =
     \<lparr>view_file_ref_uuid = generate_xcode_uuid r1,
      viewmodel_file_ref_uuid = generate_xcode_uuid r2,
      view_build_file_uuid = generate_xcode_uuid r3,
      viewmodel_build_file_uuid = generate_xcode_uuid r4,
      group_uuid = generate_xcode_uuid r5\<rparr>"

definition valid_uuids :: "uuids \<Rightarrow> bool" where
  "valid_uuids u =
     list_all (\<lambda>i. length i = 24 \<and> list_all hexU i)
       [view_file_ref_uuid u, viewmodel_file_ref_uuid u, view_build_file_uuid u,
        viewmodel_build_file_uuid u, group_uuid u]"

section \<open>The inserted texts\<close>

definition nl2 :: string where "nl2 = [CHR 0x0A, CHR 0x09, CHR 0x09]"
definition nl3 :: string where "nl3 = [CHR 0x0A, CHR 0x09, CHR 0x09, CHR 0x09]"
definition nl4 :: string where "nl4 = [CHR 0x0A, CHR 0x09, CHR 0x09, CHR 0x09, CHR 0x09]"
definition dq :: string where "dq = [CHR 0x22]"

definition build_file_entry :: "string \<Rightarrow> string \<Rightarrow> string \<Rightarrow> string" where
  "build_file_entry build_uuid ref_uuid name =
     nl2 @ build_uuid @ '' /* '' @ name @ '' in Sources */ = {isa = PBXBuildFile; fileRef = ''
       @ ref_uuid @ '' /* '' @ name @ '' */; };''"

definition build_entries :: "uuids \<Rightarrow> string" where
  "build_entries u =
     build_file_entry (view_build_file_uuid u) (view_file_ref_uuid u) ''AudioProcessorTestView.swift''
     @ build_file_entry (viewmodel_build_file_uuid u) (viewmodel_file_ref_uuid u)
         ''AudioProcessorTestViewModel.swift''"

definition file_ref_entry :: "string \<Rightarrow> string \<Rightarrow> string" where
  "file_ref_entry ref_uuid name =
     nl2 @ ref_uuid @ '' /* '' @ name
       @ '' */ = {isa = PBXFileReference; lastKnownFileType = sourcecode.swift; path = ''
       @ name @ ''; sourceTree = '' @ dq @ ''<group>'' @ dq @ ''; };''"

definition file_entries :: "uuids \<Rightarrow> string" where
  "file_entries u =
     file_ref_entry (view_file_ref_uuid u) ''AudioProcessorTestView.swift''
     @ file_ref_entry (viewmodel_file_ref_uuid u) ''AudioProcessorTestViewModel.swift''"

definition group_entry :: "uuids \<Rightarrow> string" where
  "group_entry u =
     nl2 @ group_uuid u @ '' /* AudioProcessorTest */ = {''
     @ nl3 @ ''isa = PBXGroup;''
     @ nl3 @ ''children = (''
     @ nl4 @ view_file_ref_uuid u @ '' /* AudioProcessorTestView.swift */,''
     @ nl4 @ viewmodel_file_ref_uuid u @ '' /* AudioProcessorTestViewModel.swift */,''
     @ nl3 @ '');''
     @ nl3 @ ''path = AudioProcessorTest;''
     @ nl3 @ ''sourceTree = '' @ dq @ ''<group>'' @ dq @ '';''
     @ nl2 @ ''};''"

definition group_member :: "uuids \<Rightarrow> string" where
  "group_member u = nl4 @ group_uuid u @ '' /* AudioProcessorTest */,''"

definition sources_members :: "uuids \<Rightarrow> string" where
  "sources_members u =
     nl4 @ view_build_file_uuid u @ '' /* AudioProcessorTestView.swift in Sources */,''
     @ nl4 @ viewmodel_build_file_uuid u @ '' /* AudioProcessorTestViewModel.swift in Sources */,''"

section \<open>The steps of \<open>add_files_to_pbxproj\<close>\<close>

definition build_marker :: string where
  "build_marker = ''/* Begin PBXBuildFile section */''"

definition file_ref_marker :: string where
  "file_ref_marker = ''/* Begin PBXFileReference section */''"

definition group_marker :: string where
  "group_marker = ''/* Begin PBXGroup section */''"

text \<open>A section marker is searched; the entries go in at the end of the match.\<close>

definition insert_after :: "string \<Rightarrow> string \<Rightarrow> string \<Rightarrow> string" where
  "insert_after marker entries content =
     (case find_lit marker content of
        None \<Rightarrow> content
      | Some start \<Rightarrow> insert_at content (start + length marker) entries)"

text \<open>
  The two searches of an append step, then \<open>content.replace(group(2), ...)\<close>; the
  second search looks for the identifier that the first one captured.
\<close>

definition append_members :: "string \<Rightarrow> string \<Rightarrow> string \<Rightarrow> string \<Rightarrow> string" where
  "append_members label key members content =
     (case search_listing any_id label key content of
        None \<Rightarrow> content
      | Some (owner_uuid, _) \<Rightarrow>
          (case search_listing (\<lambda>i. i = owner_uuid) label key content of
             None \<Rightarrow> content
           | Some (_, existing) \<Rightarrow> replace_all existing (rstrip existing @ members) content))"

definition add_build_files :: "uuids \<Rightarrow> string \<Rightarrow> string" where
  "add_build_files u content = insert_after build_marker (build_entries u) content"

definition add_file_refs :: "uuids \<Rightarrow> string \<Rightarrow> string" where
  "add_file_refs u content = insert_after file_ref_marker (file_entries u) content"

definition add_to_features :: "uuids \<Rightarrow> string \<Rightarrow> string" where
  "add_to_features u content = append_members ''Features'' ''children'' (group_member u) content"

definition add_group :: "uuids \<Rightarrow> string \<Rightarrow> string" where
  "add_group u content = insert_after group_marker (group_entry u) content"

definition add_to_sources :: "uuids \<Rightarrow> string \<Rightarrow> string" where
  "add_to_sources u content = append_members ''Sources'' ''files'' (sources_members u) content"

text \<open>The text transformation between the read and the write.\<close>

definition patch :: "uuids \<Rightarrow> string \<Rightarrow> string" where
  "patch u content =
     (let content = add_build_files u content;
          content = add_file_refs u content;
          content = add_to_features u content;
          content = add_group u content;
          content = add_to_sources u content
      in content)"

text \<open>The check mark U+2705 of the last line, as the three bytes written for it.\<close>

definition checkmark :: string where
  "checkmark = [CHR 0xE2, CHR 0x9C, CHR 0x85]"

text \<open>
  The whole function: the file is read in text mode, five identifiers are drawn, three
  lines are printed, the text is patched and written back in text mode, and the last line
  is printed. The result is the file system after the run, the lines printed, and the
  exception that ended the run, if any. A file that is missing or does not decode ends the
  run before anything is printed or written. \<open>stdout_unicode\<close> says whether the console
  can encode the check mark; when it cannot, the last \<open>print\<close> raises after the file is
  written. The text written holds what was decoded and ASCII insertions, so writing it back
  in the encoding it was read in does not fail.
\<close>

definition add_files_to_pbxproj ::
  "fs \<Rightarrow> bool \<Rightarrow> string \<Rightarrow> 128 word \<Rightarrow> 128 word \<Rightarrow> 128 word \<Rightarrow> 128 word \<Rightarrow> 128 word
     \<Rightarrow> fs \<times> string list \<times> error option" where
  "add_files_to_pbxproj files stdout_unicode pbxproj_path r1 r2 r3 r4 r5 =
     (case files pbxproj_path of
        None \<Rightarrow> (files, [], Some FileNotFoundError)
      | Some Undecodable \<Rightarrow> (files, [], Some UnicodeDecodeError)
      | Some (Text stored) \<Rightarrow>
          (let content = universal_newlines stored;
               u = generate_uuids r1 r2 r3 r4 r5;
               out = [''View File Ref UUID: '' @ view_file_ref_uuid u,
                      ''ViewModel File Ref UUID: '' @ viewmodel_file_ref_uuid u,
                      ''Group UUID: '' @ group_uuid u];
               files' = files(pbxproj_path \<mapsto> Text (write_newlines (patch u content)))
           in if stdout_unicode
              then (files', out @ [checkmark @ '' Files added to Xcode project successfully!''], None)
              else (files', out, Some UnicodeEncodeError)))"

section \<open>Balance of parentheses and braces\<close>







section \<open>Sample inputs\<close>

definition project_path :: string where
  "project_path = ''ReTakeAi.xcodeproj/project.pbxproj''"

text \<open>A manifest with none of the anchors.\<close>

definition plain_manifest :: string where
  "plain_manifest = ''// !$*UTF8*$!''"




text \<open>The same manifest with a CR LF line end.\<close>

definition crlf_manifest :: string where
  "crlf_manifest = ''// !$*UTF8*$!'' @ [CHR 0x0D, CHR 0x0A]"

text \<open>A group whose listing holds one blank, followed by the group marker.\<close>

definition blank_listing :: string where
  "blank_listing =
     ''7C6D5E4F3A2B1C0D9E8F7A6B /* Features */ = {isa = PBXGroup; children = ( ); };''
     @ ''/* Begin PBXGroup section */''"




text \<open>Two groups with the same listing text, and two build phases with the same one.\<close>

definition twin_groups :: string where
  "twin_groups =
     ''7C6D5E4F3A2B1C0D9E8F7A6B /* Features */ = {isa = PBXGroup; children = (A,); };''
     @ ''8D7E6F5A4B3C2D1E0F9A8B7C /* Widgets */ = {isa = PBXGroup; children = (A,); };''"

definition twin_phases :: string where
  "twin_phases =
     ''2B3C4D5E6F708192A3B4C5D6 /* Sources */ = {isa = PBXSourcesBuildPhase; files = (B,); };''
     @ ''3C4D5E6F708192A3B4C5D6E7 /* Resources */ = {isa = PBXResourcesBuildPhase; files = (B,); };''"

section \<open>Identifiers are 24 uppercase hexadecimal digits\<close>

lemma upper_hexdigits: "map upper_char ''0123456789abcdef'' = ''0123456789ABCDEF''"
  by code_simp

lemma hexdigit_nth: "n < 16 \<Longrightarrow> upper_char (hexdigit n) = ''0123456789ABCDEF'' ! n"
proof -
  assume n: "n < 16"
  have "upper_char (hexdigit n) = map upper_char ''0123456789abcdef'' ! n"
    using n unfolding hexdigit_def by (subst nth_map) simp_all
  then show ?thesis by (simp only: upper_hexdigits)
qed

lemma distinct_upper_hex: "distinct ''0123456789ABCDEF''"
  by simp

lemma upper_hexdigit_inj:
  "upper_char (hexdigit m) = upper_char (hexdigit n) \<longleftrightarrow> m mod 16 = n mod 16"
proof -
  have m: "hexdigit m = hexdigit (m mod 16)" and n: "hexdigit n = hexdigit (n mod 16)"
    by (simp_all add: hexdigit_def)
  have "upper_char (hexdigit (m mod 16)) = upper_char (hexdigit (n mod 16)) \<longleftrightarrow> m mod 16 = n mod 16"
    using distinct_upper_hex
    by (simp only: hexdigit_nth [of "m mod 16"] hexdigit_nth [of "n mod 16"] mod_less_divisor)
       (simp add: nth_eq_iff_index_eq del: distinct.simps)
  then show ?thesis using m n by simp
qed

lemma upper_hexdigit_hexU: "hexU (upper_char (hexdigit n))"
proof -
  have "hexdigit n = hexdigit (n mod 16)" by (simp add: hexdigit_def)
  moreover have "''0123456789ABCDEF'' ! (n mod 16) \<in> set ''0123456789ABCDEF''"
    by (rule nth_mem) simp
  ultimately show ?thesis
    using hexdigit_nth [of "n mod 16"] unfolding hexU_def by auto
qed

lemma generate_xcode_uuid_eq:
  "generate_xcode_uuid w = map (\<lambda>k. upper_char (hexdigit (unat (drop_bit (4 * k) w)))) (rev [8..<32])"
proof -
  have "rev [0..<32] = rev [8..<32] @ rev [0..<(8::nat)]"
    by (simp add: rev_append [symmetric] upt_add_eq_append [of 0 8 24, simplified] del: rev_append upt_Suc)
  then show ?thesis
    by (simp add: generate_xcode_uuid_def uuid_hex_def take_map del: upt_Suc)
qed

lemma generate_xcode_uuid_length: "length (generate_xcode_uuid w) = 24"
  by (simp add: generate_xcode_uuid_eq del: upt_Suc)

lemma generate_xcode_uuid_hexU: "list_all hexU (generate_xcode_uuid w)"
  by (simp add: generate_xcode_uuid_eq list_all_iff upper_hexdigit_hexU del: upt_Suc)

lemma nibble_eq: "(unat (x::128 word) mod 16 = unat y mod 16) = (take_bit 4 x = take_bit 4 y)"
proof -
  have "unat (take_bit 4 x) = unat x mod 16" "unat (take_bit 4 y) = unat y mod 16"
    by (simp_all only: unsigned_take_bit_eq) (simp_all add: take_bit_eq_mod)
  then show ?thesis by (metis word_unat_eq_iff)
qed

lemma nibbles_eq:
  "(\<forall>k\<in>{8..<32}. take_bit 4 (drop_bit (4 * k) a) = take_bit 4 (drop_bit (4 * k) b))
     = (drop_bit 32 a = drop_bit 32 b)" for a b :: "128 word"
proof
  assume h: "\<forall>k\<in>{8..<32}. take_bit 4 (drop_bit (4 * k) a) = take_bit 4 (drop_bit (4 * k) b)"
  show "drop_bit 32 a = drop_bit 32 b"
  proof (rule bit_word_eqI)
    fix n assume "n < LENGTH(128)"
    show "bit (drop_bit 32 a) n = bit (drop_bit 32 b) n"
    proof (cases "n + 32 < 128")
      case True
      define k where "k = (n + 32) div 4"
      define j where "j = (n + 32) mod 4"
      have k: "k \<in> {8..<32}" using True by (auto simp: k_def)
      have j: "j < 4" by (simp add: j_def)
      have e: "4 * k + j = 32 + n" by (simp add: k_def j_def)
      from h k have "bit (take_bit 4 (drop_bit (4 * k) a)) j = bit (take_bit 4 (drop_bit (4 * k) b)) j"
        by simp
      then have "bit a (4 * k + j) = bit b (4 * k + j)"
        using j by (simp add: bit_take_bit_iff bit_drop_bit_eq)
      then have "bit a (32 + n) = bit b (32 + n)" by (simp only: e)
      then show ?thesis by (simp add: bit_drop_bit_eq)
    next
      case False
      then have "\<not> bit a (n + 32)" "\<not> bit b (n + 32)"
        by (auto dest: bit_imp_le_length)
      then show ?thesis by (simp add: bit_drop_bit_eq add.commute [of 32 n])
    qed
  qed
next
  assume h: "drop_bit 32 a = drop_bit 32 b"
  show "\<forall>k\<in>{8..<32}. take_bit 4 (drop_bit (4 * k) a) = take_bit 4 (drop_bit (4 * k) b)"
  proof
    fix k :: nat assume "k \<in> {8..<32}"
    then have "4 * k = 32 + (4 * k - 32)" by auto
    then have "drop_bit (4 * k) a = drop_bit (4 * k - 32) (drop_bit 32 a)"
      "drop_bit (4 * k) b = drop_bit (4 * k - 32) (drop_bit 32 b)"
      by (metis drop_bit_drop_bit add.commute)+
    with h show "take_bit 4 (drop_bit (4 * k) a) = take_bit 4 (drop_bit (4 * k) b)" by simp
  qed
qed

lemma generate_xcode_uuid_inj:
  "generate_xcode_uuid a = generate_xcode_uuid b \<longleftrightarrow> drop_bit 32 a = drop_bit 32 b"
  unfolding generate_xcode_uuid_eq map_eq_conv set_rev set_upt upper_hexdigit_inj nibble_eq
  by (rule nibbles_eq)

lemma distinct_map_cong:
  assumes "\<And>a b. f a = f b \<longleftrightarrow> g a = g b"
  shows "distinct (map f xs) = distinct (map g xs)"
proof (induction xs)
  case Nil
  show ?case by simp
next
  case (Cons x xs)
  have "f x \<in> f ` set xs \<longleftrightarrow> g x \<in> g ` set xs"
    using assms by (auto simp: image_iff)
  with Cons show ?case by simp
qed

section \<open>The searches\<close>

lemma find_lit_Some:
  "find_lit pat s = Some i \<Longrightarrow> i + length pat \<le> length s \<and> take (length pat) (drop i s) = pat"
proof (induction s arbitrary: i)
  case Nil
  then show ?case by (simp split: if_splits)
next
  case (Cons x xs)
  show ?case
  proof (cases "prefix pat (x # xs)")
    case True
    with Cons.prems have "i = 0" by simp
    with True prefix_length_le [OF True] show ?thesis
      by (auto simp: prefix_def)
  next
    case False
    with Cons.prems obtain j where j: "find_lit pat xs = Some j" "i = Suc j"
      by auto
    from Cons.IH [OF j(1)] j(2) show ?thesis by simp
  qed
qed

lemma find_lit_None: "find_lit pat s = None \<longleftrightarrow> \<not> sublist pat s"
proof (induction s)
  case Nil
  show ?case by auto
next
  case (Cons x xs)
  show ?case
    using Cons by (auto simp: sublist_Cons_right)
qed

lemma insert_after_absent: "find_lit marker content = None \<Longrightarrow> insert_after marker entries content = content"
  by (simp add: insert_after_def)

lemma insert_after_present:
  assumes "find_lit marker content = Some i"
  shows "insert_after marker entries content
           = take i content @ marker @ entries @ drop (i + length marker) content"
proof -
  from find_lit_Some [OF assms]
  have "take (i + length marker) content = take i content @ marker"
    by (simp add: take_add)
  with assms show ?thesis
    by (simp add: insert_after_def insert_at_def)
qed

lemma append_members_absent:
  "search_listing any_id label key content = None \<Longrightarrow> append_members label key members content = content"
  by (simp add: append_members_def)

lemma match_here_any_id:
  assumes "match_here any_id label key s = Some (owner, g)"
  shows "owner = take 24 s \<and> any_id owner \<and> match_here (\<lambda>i. i = owner) label key s = Some (owner, g)"
  using assms unfolding match_here_def Let_def
  by (auto split: if_splits)

lemma match_here_other_id:
  assumes "match_here any_id label key s = None" "any_id owner"
  shows "match_here (\<lambda>i. i = owner) label key s = None"
  using assms unfolding match_here_def Let_def
  by (auto split: if_splits)

lemma search_listing_again:
  assumes "search_listing any_id label key s = Some (owner, g)"
  shows "search_listing (\<lambda>i. i = owner) label key s = Some (owner, g)"
  using assms
proof (induction s)
  case Nil
  then show ?case by simp
next
  case (Cons x xs)
  show ?case
  proof (cases "match_here any_id label key (x # xs)")
    case None
    with Cons.prems have s: "search_listing any_id label key xs = Some (owner, g)" by simp
    have "any_id owner" using s
    proof (induction xs)
      case Nil then show ?case by simp
    next
      case (Cons y ys)
      then show ?case
        by (cases "match_here any_id label key (y # ys)") (auto dest: match_here_any_id)
    qed
    from match_here_other_id [OF None this] Cons.IH [OF s] show ?thesis by simp
  next
    case (Some m)
    with Cons.prems have mh: "match_here any_id label key (x # xs) = Some (owner, g)" by simp
    from match_here_any_id [OF mh]
    have "match_here (\<lambda>i. i = owner) label key (x # xs) = Some (owner, g)" by blast
    then show ?thesis by simp
  qed
qed

lemma append_members_eq:
  "append_members label key members content =
     (case search_listing any_id label key content of
        None \<Rightarrow> content
      | Some (owner, existing) \<Rightarrow> replace_all existing (rstrip existing @ members) content)"
  by (auto simp: append_members_def search_listing_again split: option.splits)

lemma write_newlines_id: "write_newlines s = s"
  by (induction s) (simp_all add: write_newlines_def os_linesep_def)

lemma add_files_to_pbxproj_Text:
  assumes "files p = Some (Text stored)"
  shows "add_files_to_pbxproj files enc p r1 r2 r3 r4 r5 =
    (files(p \<mapsto> Text (patch (generate_uuids r1 r2 r3 r4 r5) (universal_newlines stored))),
     [''View File Ref UUID: '' @ generate_xcode_uuid r1,
      ''ViewModel File Ref UUID: '' @ generate_xcode_uuid r2,
      ''Group UUID: '' @ generate_xcode_uuid r5]
     @ (if enc then [checkmark @ '' Files added to Xcode project successfully!''] else []),
     if enc then None else Some UnicodeEncodeError)"
  using assms
  by (simp add: add_files_to_pbxproj_def Let_def generate_uuids_def write_newlines_id)

lemma patch_eq:
  "patch u content =
     add_to_sources u (add_group u (add_to_features u (add_file_refs u (add_build_files u content))))"
  by (simp add: patch_def)

section \<open>Balance is kept by insertions and replacements\<close>












lemma valid_generate_uuids: "valid_uuids (generate_uuids r1 r2 r3 r4 r5)"
  by (simp add: valid_uuids_def generate_uuids_def generate_xcode_uuid_length generate_xcode_uuid_hexU)

lemma valid_uuidsD:
  "valid_uuids u \<Longrightarrow>
     list_all hexU (view_file_ref_uuid u) \<and> list_all hexU (viewmodel_file_ref_uuid u)
     \<and> list_all hexU (view_build_file_uuid u) \<and> list_all hexU (viewmodel_build_file_uuid u)
     \<and> list_all hexU (group_uuid u)"
  by (simp add: valid_uuids_def)











section \<open>What the listing patterns match\<close>

lemma close_bt_below:
  "m < length (takeWhile (\<lambda>c. c \<noteq> CHR '')'') t) \<Longrightarrow> close_bt t m = None"
proof (induction m)
  case 0
  show ?case by simp
next
  case (Suc m)
  let ?tw = "takeWhile (\<lambda>c. c \<noteq> CHR '')'') t"
  from Suc.prems have lt: "Suc m < length ?tw" .
  then have "Suc m < length t"
    using length_takeWhile_le [of "\<lambda>c. c \<noteq> CHR '')''" t] by linarith
  then have d: "drop (Suc m) t = t ! Suc m # drop (Suc (Suc m)) t"
    by (simp add: Cons_nth_drop_Suc)
  have "t ! Suc m = ?tw ! Suc m"
    using lt by (simp add: takeWhile_nth)
  moreover have "?tw ! Suc m \<noteq> CHR '')''"
    using set_takeWhileD [OF nth_mem [OF lt]] by simp
  ultimately have "\<not> prefix '');'' (drop (Suc m) t)"
    by (simp add: d)
  with Suc.IH lt show ?case by simp
qed

lemma close_bt_run:
  "close_bt t (length (takeWhile (\<lambda>c. c \<noteq> CHR '')'') t)) =
     (let g = takeWhile (\<lambda>c. c \<noteq> CHR '')'') t
      in if g \<noteq> [] \<and> prefix '');'' (drop (length g) t) then Some g else None)"
proof (cases "length (takeWhile (\<lambda>c. c \<noteq> CHR '')'') t)")
  case 0
  then show ?thesis by simp
next
  case (Suc m)
  let ?tw = "takeWhile (\<lambda>c. c \<noteq> CHR '')'') t"
  have "close_bt t m = None"
    using Suc by (intro close_bt_below) simp
  moreover have "take (Suc m) t = ?tw"
    using Suc by (metis append_eq_conv_conj takeWhile_dropWhile_id)
  moreover have "?tw \<noteq> []" using Suc by auto
  ultimately show ?thesis
    using Suc by (simp add: Let_def)
qed

lemma match_list_Some:
  "match_list key s = Some g \<longleftrightarrow>
     (\<exists>rest. s = key @ '' = ('' @ g @ '');'' @ rest \<and> g \<noteq> [] \<and> CHR '')'' \<notin> set g)"
proof
  assume m: "match_list key s = Some g"
  let ?lit = "key @ '' = (''"
  from m have p: "prefix ?lit s"
    by (auto simp: match_list_def split: if_splits)
  define t where "t = drop (length ?lit) s"
  from p have s: "s = ?lit @ t"
    unfolding t_def by (metis append_eq_conv_conj prefix_def)
  from m p have "close_bt t (length (takeWhile (\<lambda>c. c \<noteq> CHR '')'') t)) = Some g"
    by (simp add: match_list_def t_def Let_def)
  then have g: "g = takeWhile (\<lambda>c. c \<noteq> CHR '')'') t" "g \<noteq> []" "prefix '');'' (drop (length g) t)"
    unfolding close_bt_run Let_def by (auto split: if_splits)
  from g(1) have t: "t = g @ drop (length g) t"
    by (metis append_eq_conv_conj takeWhile_dropWhile_id)
  from g(3) obtain rest where "drop (length g) t = '');'' @ rest"
    by (auto simp: prefix_def)
  with t have "t = g @ '');'' @ rest" by simp
  moreover have "CHR '')'' \<notin> set g"
    using g(1) by (auto dest: set_takeWhileD)
  ultimately show "\<exists>rest. s = key @ '' = ('' @ g @ '');'' @ rest \<and> g \<noteq> [] \<and> CHR '')'' \<notin> set g"
    using s g(2) by auto
next
  assume "\<exists>rest. s = key @ '' = ('' @ g @ '');'' @ rest \<and> g \<noteq> [] \<and> CHR '')'' \<notin> set g"
  then obtain rest where s: "s = (key @ '' = ('') @ g @ '');'' @ rest"
    and g: "g \<noteq> []" "CHR '')'' \<notin> set g"
    by auto
  have tw: "takeWhile (\<lambda>c. c \<noteq> CHR '')'') (g @ '');'' @ rest) = g"
    using g(2) by (subst takeWhile_append2) auto
  have "prefix (key @ '' = ('') s" unfolding s by simp
  moreover have "drop (length (key @ '' = ('')) s = g @ '');'' @ rest"
    unfolding s by simp
  ultimately show "match_list key s = Some g"
    unfolding match_list_def Let_def close_bt_run using g(1) tw
    by simp
qed

lemma body_bt_Some:
  "body_bt key s k = Some g \<Longrightarrow> \<exists>j. 0 < j \<and> j \<le> k \<and> match_list key (drop j s) = Some g"
proof (induction k)
  case 0
  then show ?case by simp
next
  case (Suc k)
  show ?case
  proof (cases "match_list key (drop (Suc k) s)")
    case None
    with Suc.prems have "body_bt key s k = Some g" by simp
    from Suc.IH [OF this] show ?thesis by (meson le_Suc_eq)
  next
    case (Some g')
    with Suc.prems have "g' = g" by simp
    with Some show ?thesis by blast
  qed
qed

lemma body_bt_None:
  "body_bt key s k = None \<longleftrightarrow> (\<forall>j. 0 < j \<and> j \<le> k \<longrightarrow> match_list key (drop j s) = None)"
proof (induction k)
  case 0
  show ?case by simp
next
  case (Suc k)
  show ?case
  proof (cases "match_list key (drop (Suc k) s)")
    case None
    have "(\<forall>j. 0 < j \<and> j \<le> Suc k \<longrightarrow> match_list key (drop j s) = None)
        \<longleftrightarrow> (\<forall>j. 0 < j \<and> j \<le> k \<longrightarrow> match_list key (drop j s) = None)"
      using None by (metis le_Suc_eq)
    with Suc.IH None show ?thesis by simp
  next
    case (Some g')
    then have "\<not> (\<forall>j. 0 < j \<and> j \<le> Suc k \<longrightarrow> match_list key (drop j s) = None)"
      by (metis option.distinct(1) zero_less_Suc order_refl)
    with Some show ?thesis by simp
  qed
qed

lemma match_here_Some:
  assumes "match_here idp label key s = Some (i, g)"
  shows "\<exists>body rest. s = i @ ('' /* '' @ label @ '' */ = {'') @ body @ (key @ '' = ('') @ g @ '');'' @ rest
           \<and> length i = 24 \<and> idp i \<and> body \<noteq> [] \<and> CHR ''}'' \<notin> set body
           \<and> g \<noteq> [] \<and> CHR '')'' \<notin> set g"
proof -
  let ?lit = "'' /* '' @ label @ '' */ = {''"
  define b where "b = drop (24 + length ?lit) s"
  let ?run = "takeWhile (\<lambda>c. c \<noteq> CHR ''}'') b"
  from assms have c: "length (take 24 s) = 24" "idp (take 24 s)" "prefix ?lit (drop 24 s)"
    and i: "i = take 24 s"
    and bt: "body_bt key b (length ?run) = Some g"
    unfolding match_here_def Let_def b_def by (auto split: if_splits)
  from c(3) have "drop 24 s = ?lit @ drop (length ?lit) (drop 24 s)"
    by (metis append_eq_conv_conj prefix_def)
  then have d: "drop 24 s = ?lit @ b"
    unfolding b_def by (simp add: add.commute)
  have s: "s = i @ ?lit @ b"
    using d i by (metis append_take_drop_id)
  from body_bt_Some [OF bt] obtain j where j: "0 < j" "j \<le> length ?run"
    and m: "match_list key (drop j b) = Some g"
    by blast
  from m obtain rest where r: "drop j b = key @ '' = ('' @ g @ '');'' @ rest"
    and g: "g \<noteq> []" "CHR '')'' \<notin> set g"
    unfolding match_list_Some by blast
  have jb: "j \<le> length b"
    using j(2) length_takeWhile_le [of "\<lambda>c. c \<noteq> CHR ''}''" b] by linarith
  have "take j b = take j ?run"
    using j(2) by (metis append_eq_conv_conj min.absorb2 take_append takeWhile_dropWhile_id
        take_all_iff diff_is_0_eq' take_0 append_Nil2)
  then have "set (take j b) \<subseteq> set ?run"
    by (simp add: set_take_subset)
  then have nb: "CHR ''}'' \<notin> set (take j b)"
    by (auto dest: set_takeWhileD)
  have ne: "take j b \<noteq> []"
    using j(1) jb by auto
  have "b = take j b @ key @ '' = ('' @ g @ '');'' @ rest"
    using r by (metis append_take_drop_id)
  with s have "s = i @ ?lit @ take j b @ (key @ '' = ('') @ g @ '');'' @ rest"
    by simp
  with c i nb ne g show ?thesis by blast
qed

lemma search_listing_Some:
  assumes "search_listing idp label key s = Some m"
  shows "\<exists>pre suf. s = pre @ suf \<and> match_here idp label key suf = Some m
           \<and> (\<forall>j<length pre. match_here idp label key (drop j s) = None)"
  using assms
proof (induction s)
  case Nil
  then show ?case by simp
next
  case (Cons x xs)
  show ?case
  proof (cases "match_here idp label key (x # xs)")
    case None
    with Cons.prems have "search_listing idp label key xs = Some m" by simp
    from Cons.IH [OF this] obtain pre suf where p: "xs = pre @ suf"
      "match_here idp label key suf = Some m"
      "\<forall>j<length pre. match_here idp label key (drop j xs) = None"
      by blast
    have "\<forall>j<length (x # pre). match_here idp label key (drop j (x # xs)) = None"
    proof (intro allI impI)
      fix j assume "j < length (x # pre)"
      then show "match_here idp label key (drop j (x # xs)) = None"
        using None p(3) by (cases j) auto
    qed
    with p(1,2) show ?thesis
      by (metis append_Cons)
  next
    case (Some m')
    with Cons.prems have "m' = m" by simp
    with Some have "x # xs = [] @ (x # xs) \<and> match_here idp label key (x # xs) = Some m
        \<and> (\<forall>j<length ([]::string). match_here idp label key (drop j (x # xs)) = None)"
      by simp
    then show ?thesis by blast
  qed
qed


lemma search_listing_shape:
  assumes "search_listing idp label key s = Some (i, g)"
  shows "\<exists>pre body rest.
           s = pre @ i @ ('' /* '' @ label @ '' */ = {'') @ body @ (key @ '' = ('') @ g @ '');'' @ rest
           \<and> length i = 24 \<and> idp i \<and> body \<noteq> [] \<and> CHR ''}'' \<notin> set body
           \<and> g \<noteq> [] \<and> CHR '')'' \<notin> set g"
proof -
  from search_listing_Some [OF assms] obtain pre suf where p: "s = pre @ suf"
    "match_here idp label key suf = Some (i, g)"
    by blast
  from match_here_Some [OF p(2)] p(1) show ?thesis by blast
qed

section \<open>What \<open>str.replace\<close> rewrites\<close>

lemma split_on_not_Nil: "split_on sep s \<noteq> []"
  by (induction sep s rule: split_on.induct) (auto split: list.splits)

lemma join_Cons_Cons: "ps \<noteq> [] \<Longrightarrow> join sep (p # ps) = p @ sep @ join sep ps"
  by (cases ps) simp_all

lemma join_push: "join sep ((x # p) # ps) = x # join sep (p # ps)"
  by (cases ps) simp_all

lemma join_split_on: "join sep (split_on sep s) = s"
proof (induction sep s rule: split_on.induct)
  case (1 sep)
  show ?case by simp
next
  case (2 sep x xs)
  show ?case
  proof (cases "sep \<noteq> [] \<and> prefix sep (x # xs)")
    case True
    then have e: "x # xs = sep @ drop (length sep) (x # xs)"
      by (metis append_eq_conv_conj prefix_def)
    have "join sep ([] # split_on sep (drop (length sep) (x # xs)))
        = sep @ drop (length sep) (x # xs)"
      using "2.IH"(1) [OF True] by (simp add: join_Cons_Cons split_on_not_Nil)
    with e True show ?thesis by simp
  next
    case False
    obtain p ps where s: "split_on sep xs = p # ps"
      using split_on_not_Nil [of sep xs] by (cases "split_on sep xs") auto
    have "join sep ((x # p) # ps) = x # xs"
      using "2.IH"(2) [OF False] s by (simp add: join_push)
    with False s show ?thesis by auto
  qed
qed

lemma replace_all_join:
  "old \<noteq> [] \<Longrightarrow> replace_all old new s = join new (split_on old s)"
proof (induction old new s rule: replace_all.induct)
  case (1 old new)
  then show ?case by simp
next
  case (2 old new x xs)
  show ?case
  proof (cases "prefix old (x # xs)")
    case True
    have "replace_all old new (drop (length old) (x # xs))
        = join new (split_on old (drop (length old) (x # xs)))"
      using "2.IH"(2) [OF "2.prems" True "2.prems"] .
    with True "2.prems" show ?thesis
      by (simp add: join_Cons_Cons split_on_not_Nil)
  next
    case False
    obtain p ps where s: "split_on old xs = p # ps"
      using split_on_not_Nil [of old xs] by (cases "split_on old xs") auto
    have "replace_all old new xs = join new (p # ps)"
      using "2.IH"(3) [OF "2.prems" False "2.prems"] s by simp
    with False "2.prems" s show ?thesis
      by (simp add: join_push)
  qed
qed

lemma occurrences_iff:
  "j \<in> set (occurrences pat s) \<longleftrightarrow> j \<le> length s \<and> prefix pat (drop j s)"
  by (auto simp: occurrences_def simp del: upt_Suc)

lemma replace_all_none:
  assumes "old \<noteq> []" "\<And>j. j \<le> length s \<Longrightarrow> \<not> prefix old (drop j s)"
  shows "replace_all old new s = s"
  using assms
proof (induction s)
  case Nil
  then show ?case by simp
next
  case (Cons x xs)
  have "\<not> prefix old (x # xs)"
    using Cons.prems(2) [of 0] by simp
  moreover have "replace_all old new xs = xs"
  proof (rule Cons.IH [OF Cons.prems(1)])
    fix j assume "j \<le> length xs"
    then show "\<not> prefix old (drop j xs)"
      using Cons.prems(2) [of "Suc j"] by simp
  qed
  ultimately show ?case using Cons.prems(1) by simp
qed

lemma replace_all_unique:
  assumes "old \<noteq> []"
    and "\<And>j. j \<le> length (a @ old @ b) \<Longrightarrow> prefix old (drop j (a @ old @ b)) \<Longrightarrow> j = length a"
  shows "replace_all old new (a @ old @ b) = a @ new @ b"
  using assms
proof (induction a)
  case Nil
  have "replace_all old new b = b"
  proof (rule replace_all_none [OF Nil.prems(1)])
    fix j assume j: "j \<le> length b"
    show "\<not> prefix old (drop j b)"
    proof
      assume "prefix old (drop j b)"
      then have "prefix old (drop (length old + j) ([] @ old @ b))" by simp
      with Nil.prems(2) [of "length old + j"] j have "length old + j = 0" by simp
      with Nil.prems(1) show False by simp
    qed
  qed
  moreover obtain x xs where o: "old = x # xs"
    using Nil.prems(1) by (cases old) auto
  ultimately show ?case by simp
next
  case (Cons x a)
  have np: "\<not> prefix old (x # a @ old @ b)"
    using Cons.prems(2) [of 0] by auto
  have "replace_all old new (a @ old @ b) = a @ new @ b"
  proof (rule Cons.IH [OF Cons.prems(1)])
    fix j assume "j \<le> length (a @ old @ b)" "prefix old (drop j (a @ old @ b))"
    with Cons.prems(2) [of "Suc j"] show "j = length a" by simp
  qed
  with np Cons.prems(1) show ?case by simp
qed

lemma replace_all_once:
  assumes "old \<noteq> []" and "s = a @ old @ b" and "length (occurrences old s) = 1"
  shows "replace_all old new s = a @ new @ b"
proof -
  from assms(3) obtain k where k: "occurrences old s = [k]"
    by (cases "occurrences old s") auto
  have "length a \<in> set (occurrences old s)"
    unfolding occurrences_iff assms(2) by simp
  with k have ka: "k = length a" by simp
  have "replace_all old new (a @ old @ b) = a @ new @ b"
  proof (rule replace_all_unique [OF assms(1)])
    fix j assume "j \<le> length (a @ old @ b)" "prefix old (drop j (a @ old @ b))"
    then have "j \<in> set (occurrences old s)"
      unfolding occurrences_iff assms(2) by simp
    with k ka show "j = length a" by simp
  qed
  with assms(2) show ?thesis by simp
qed

section \<open>A listing that is empty is not matched\<close>



section \<open>The append steps (C9, C10)\<close>















text \<open>
  Claim C10. The append is \<open>content.replace(group(2), ...)\<close> on the whole text: when the
  pattern captures the listing text \<open>g\<close>, the text is cut at every occurrence of \<open>g\<close>
  that a scan from the left finds, and every one of them is rewritten, inside the matched
  listing or not. So a text with \<open>g\<close> at two places is changed at both.
\<close>

theorem append_rewrites_every_occurrence:
  "(search_listing any_id ''Features'' ''children'' x = Some (owner, g)
      \<longrightarrow> x = join g (split_on g x)
        \<and> add_to_features u x = join (rstrip g @ group_member u) (split_on g x))
   \<and> (search_listing any_id ''Sources'' ''files'' x = Some (owner, g)
      \<longrightarrow> x = join g (split_on g x)
        \<and> add_to_sources u x = join (rstrip g @ sources_members u) (split_on g x))"
proof (intro conjI impI)
  assume m: "search_listing any_id ''Features'' ''children'' x = Some (owner, g)"
  from search_listing_shape [OF m] have "g \<noteq> []" by blast
  then show "add_to_features u x = join (rstrip g @ group_member u) (split_on g x)"
    using m by (simp add: add_to_features_def append_members_eq replace_all_join)
next
  assume m: "search_listing any_id ''Sources'' ''files'' x = Some (owner, g)"
  from search_listing_shape [OF m] have "g \<noteq> []" by blast
  then show "add_to_sources u x = join (rstrip g @ sources_members u) (split_on g x)"
    using m by (simp add: add_to_sources_def append_members_eq replace_all_join)
qed (simp_all add: join_split_on)

lemma twin_groups_match:
  "search_listing any_id ''Features'' ''children'' twin_groups
     = Some (''7C6D5E4F3A2B1C0D9E8F7A6B'', ''A,'')"
  by code_simp

lemma twin_groups_split:
  "split_on ''A,'' twin_groups =
     [''7C6D5E4F3A2B1C0D9E8F7A6B /* Features */ = {isa = PBXGroup; children = ('',
      ''); };8D7E6F5A4B3C2D1E0F9A8B7C /* Widgets */ = {isa = PBXGroup; children = ('',
      ''); };'']"
  by code_simp

lemma twin_phases_match:
  "search_listing any_id ''Sources'' ''files'' twin_phases
     = Some (''2B3C4D5E6F708192A3B4C5D6'', ''B,'')"
  by code_simp

lemma twin_phases_split:
  "split_on ''B,'' twin_phases =
     [''2B3C4D5E6F708192A3B4C5D6 /* Sources */ = {isa = PBXSourcesBuildPhase; files = ('',
      ''); };3C4D5E6F708192A3B4C5D6E7 /* Resources */ = {isa = PBXResourcesBuildPhase; files = ('',
      ''); };'']"
  by code_simp

lemma rstrip_comma: "rstrip ''A,'' = ''A,''" "rstrip ''B,'' = ''B,''"
  by (simp_all add: rstrip_def isspace_def)

theorem append_rewrites_every_occurrence_witness:
  "search_listing any_id ''Features'' ''children'' twin_groups
      = Some (''7C6D5E4F3A2B1C0D9E8F7A6B'', ''A,'')
   \<and> add_to_features (generate_uuids 1 2 3 4 5) twin_groups =
       ''7C6D5E4F3A2B1C0D9E8F7A6B /* Features */ = {isa = PBXGroup; children = (''
       @ ''A,'' @ group_member (generate_uuids 1 2 3 4 5)
       @ ''); };8D7E6F5A4B3C2D1E0F9A8B7C /* Widgets */ = {isa = PBXGroup; children = (''
       @ ''A,'' @ group_member (generate_uuids 1 2 3 4 5)
       @ ''); };''
   \<and> search_listing any_id ''Sources'' ''files'' twin_phases
      = Some (''2B3C4D5E6F708192A3B4C5D6'', ''B,'')
   \<and> add_to_sources (generate_uuids 1 2 3 4 5) twin_phases =
       ''2B3C4D5E6F708192A3B4C5D6 /* Sources */ = {isa = PBXSourcesBuildPhase; files = (''
       @ ''B,'' @ sources_members (generate_uuids 1 2 3 4 5)
       @ ''); };3C4D5E6F708192A3B4C5D6E7 /* Resources */ = {isa = PBXResourcesBuildPhase; files = (''
       @ ''B,'' @ sources_members (generate_uuids 1 2 3 4 5)
       @ ''); };''"
proof -
  let ?u = "generate_uuids 1 2 3 4 5"
  from append_rewrites_every_occurrence
    [of twin_groups "''7C6D5E4F3A2B1C0D9E8F7A6B''" "''A,''" ?u] twin_groups_match
  have "add_to_features ?u twin_groups = join (rstrip ''A,'' @ group_member ?u) (split_on ''A,'' twin_groups)"
    by blast
  then have a: "add_to_features ?u twin_groups =
       ''7C6D5E4F3A2B1C0D9E8F7A6B /* Features */ = {isa = PBXGroup; children = (''
       @ ''A,'' @ group_member ?u
       @ ''); };8D7E6F5A4B3C2D1E0F9A8B7C /* Widgets */ = {isa = PBXGroup; children = (''
       @ ''A,'' @ group_member ?u
       @ ''); };''"
    unfolding twin_groups_split rstrip_comma by simp
  from append_rewrites_every_occurrence
    [of twin_phases "''2B3C4D5E6F708192A3B4C5D6''" "''B,''" ?u] twin_phases_match
  have "add_to_sources ?u twin_phases = join (rstrip ''B,'' @ sources_members ?u) (split_on ''B,'' twin_phases)"
    by blast
  then have b: "add_to_sources ?u twin_phases =
       ''2B3C4D5E6F708192A3B4C5D6 /* Sources */ = {isa = PBXSourcesBuildPhase; files = (''
       @ ''B,'' @ sources_members ?u
       @ ''); };3C4D5E6F708192A3B4C5D6E7 /* Resources */ = {isa = PBXResourcesBuildPhase; files = (''
       @ ''B,'' @ sources_members ?u
       @ ''); };''"
    unfolding twin_phases_split rstrip_comma by simp
  from a b twin_groups_match twin_phases_match show ?thesis by blast
qed

section \<open>Identifiers and output (C2, C8)\<close>

text \<open>
  Claim C2, as the code has it. A run draws five identifiers, each of 24 characters of
  \<^verbatim>\<open>[A-F0-9]\<close>: two for the file references, two for the build files, one for the group.
  They are the first 24 of the 32 digits of a draw, so the five are mutually distinct
  exactly when the five draws differ pairwise in their upper 96 bits; nothing in the code
  compares them.
\<close>

theorem generated_identifiers:
  assumes "files p = Some (Text stored)"
  shows "let u = generate_uuids r1 r2 r3 r4 r5;
             ids = [view_file_ref_uuid u, viewmodel_file_ref_uuid u, view_build_file_uuid u,
                    viewmodel_build_file_uuid u, group_uuid u]
         in fst (add_files_to_pbxproj files enc p r1 r2 r3 r4 r5)
              = files(p \<mapsto> Text (patch u (universal_newlines stored)))
          \<and> list_all (\<lambda>i. length i = 24 \<and> list_all hexU i) ids
          \<and> (distinct ids \<longleftrightarrow> distinct (map (drop_bit 32) [r1, r2, r3, r4, r5]))"
proof -
  have d: "distinct (map generate_xcode_uuid [r1, r2, r3, r4, r5])
             = distinct (map (drop_bit 32) [r1, r2, r3, r4, r5])"
    by (rule distinct_map_cong) (rule generate_xcode_uuid_inj)
  show ?thesis
    unfolding Let_def add_files_to_pbxproj_Text [of files p stored, OF assms]
    using d by (simp add: generate_uuids_def generate_xcode_uuid_length generate_xcode_uuid_hexU)
qed

theorem generated_identifiers_witness:
  "[project_path \<mapsto> Text plain_manifest] project_path = Some (Text plain_manifest) \<and>
   (let u = generate_uuids 0x123e4567e89b42d3a456426614174000 0x9f1c2a7be0d44c11b2a05c3e77d1a001
              0x5a0e6d3c1b2f4a9e8c7d6b5a49382716 0x0c8d7e6f5a4b4c3d9e2f1a0b9c8d7e6f
              0x7b1d3f5a9c2e4b6d8f0a1c3e5a7b9d2f;
        ids = [view_file_ref_uuid u, viewmodel_file_ref_uuid u, view_build_file_uuid u,
               viewmodel_build_file_uuid u, group_uuid u]
    in fst (add_files_to_pbxproj [project_path \<mapsto> Text plain_manifest] True project_path
              0x123e4567e89b42d3a456426614174000 0x9f1c2a7be0d44c11b2a05c3e77d1a001
              0x5a0e6d3c1b2f4a9e8c7d6b5a49382716 0x0c8d7e6f5a4b4c3d9e2f1a0b9c8d7e6f
              0x7b1d3f5a9c2e4b6d8f0a1c3e5a7b9d2f)
         = [project_path \<mapsto> Text plain_manifest]
             (project_path \<mapsto> Text (patch u (universal_newlines plain_manifest)))
     \<and> list_all (\<lambda>i. length i = 24 \<and> list_all hexU i) ids
     \<and> (distinct ids \<longleftrightarrow> distinct (map (drop_bit 32)
           [0x123e4567e89b42d3a456426614174000, 0x9f1c2a7be0d44c11b2a05c3e77d1a001,
            0x5a0e6d3c1b2f4a9e8c7d6b5a49382716, 0x0c8d7e6f5a4b4c3d9e2f1a0b9c8d7e6f,
            0x7b1d3f5a9c2e4b6d8f0a1c3e5a7b9d2f :: 128 word])))"
proof -
  have h: "[project_path \<mapsto> Text plain_manifest] project_path = Some (Text plain_manifest)"
    by simp
  from generated_identifiers [of "[project_path \<mapsto> Text plain_manifest]" project_path
      plain_manifest "0x123e4567e89b42d3a456426614174000" "0x9f1c2a7be0d44c11b2a05c3e77d1a001"
      "0x5a0e6d3c1b2f4a9e8c7d6b5a49382716" "0x0c8d7e6f5a4b4c3d9e2f1a0b9c8d7e6f"
      "0x7b1d3f5a9c2e4b6d8f0a1c3e5a7b9d2f" True, OF h] h
  show ?thesis by blast
qed

text \<open>
  Five different draws, the first two differing in their last digit only, give the same
  identifier to both file references.
\<close>

theorem identifiers_distinct_counterexample:
  "\<not> distinct (map generate_xcode_uuid
        [0x123e4567e89b42d3a456426614174000, 0x123e4567e89b42d3a456426614174001,
         0x9f1c2a7be0d44c11b2a05c3e77d1a001, 0x5a0e6d3c1b2f4a9e8c7d6b5a49382716,
         0x0c8d7e6f5a4b4c3d9e2f1a0b9c8d7e6f])"
proof -
  have "generate_xcode_uuid 0x123e4567e89b42d3a456426614174000
      = generate_xcode_uuid 0x123e4567e89b42d3a456426614174001"
    unfolding generate_xcode_uuid_inj by simp
  then show ?thesis by simp
qed

text \<open>
  Claim C8, as the code has it. A run that reads the file and ends without an exception
  prints four lines, whatever the steps did: the two file-reference identifiers, the group
  identifier and the line with the check mark. The two build-file identifiers are not
  printed. (When the console cannot encode the check mark, the three identifier lines are
  printed and the last \<open>print\<close> raises.)
\<close>

theorem output_lines:
  assumes "files p = Some (Text stored)"
  shows "snd (add_files_to_pbxproj files True p r1 r2 r3 r4 r5) =
    ([''View File Ref UUID: '' @ generate_xcode_uuid r1,
      ''ViewModel File Ref UUID: '' @ generate_xcode_uuid r2,
      ''Group UUID: '' @ generate_xcode_uuid r5,
      checkmark @ '' Files added to Xcode project successfully!''], None)
   \<and> snd (add_files_to_pbxproj files False p r1 r2 r3 r4 r5) =
    ([''View File Ref UUID: '' @ generate_xcode_uuid r1,
      ''ViewModel File Ref UUID: '' @ generate_xcode_uuid r2,
      ''Group UUID: '' @ generate_xcode_uuid r5], Some UnicodeEncodeError)"
  unfolding add_files_to_pbxproj_Text [of files p stored, OF assms] by simp

theorem output_lines_witness:
  "[project_path \<mapsto> Text plain_manifest] project_path = Some (Text plain_manifest) \<and>
   snd (add_files_to_pbxproj [project_path \<mapsto> Text plain_manifest] True project_path
          0x123e4567e89b42d3a456426614174000 0x9f1c2a7be0d44c11b2a05c3e77d1a001
          0x5a0e6d3c1b2f4a9e8c7d6b5a49382716 0x0c8d7e6f5a4b4c3d9e2f1a0b9c8d7e6f
          0x7b1d3f5a9c2e4b6d8f0a1c3e5a7b9d2f) =
    ([''View File Ref UUID: '' @ generate_xcode_uuid 0x123e4567e89b42d3a456426614174000,
      ''ViewModel File Ref UUID: '' @ generate_xcode_uuid 0x9f1c2a7be0d44c11b2a05c3e77d1a001,
      ''Group UUID: '' @ generate_xcode_uuid 0x7b1d3f5a9c2e4b6d8f0a1c3e5a7b9d2f,
      checkmark @ '' Files added to Xcode project successfully!''], None)"
proof -
  have h: "[project_path \<mapsto> Text plain_manifest] project_path = Some (Text plain_manifest)"
    by simp
  from output_lines [of "[project_path \<mapsto> Text plain_manifest]" project_path plain_manifest
      "0x123e4567e89b42d3a456426614174000" "0x9f1c2a7be0d44c11b2a05c3e77d1a001"
      "0x5a0e6d3c1b2f4a9e8c7d6b5a49382716" "0x0c8d7e6f5a4b4c3d9e2f1a0b9c8d7e6f"
      "0x7b1d3f5a9c2e4b6d8f0a1c3e5a7b9d2f", OF h] h
  show ?thesis by blast
qed

text \<open>The lines printed by a run that ends without an exception are four, not six.\<close>

theorem six_lines_counterexample:
  "snd (snd (add_files_to_pbxproj [project_path \<mapsto> Text plain_manifest] True project_path
          0x123e4567e89b42d3a456426614174000 0x9f1c2a7be0d44c11b2a05c3e77d1a001
          0x5a0e6d3c1b2f4a9e8c7d6b5a49382716 0x0c8d7e6f5a4b4c3d9e2f1a0b9c8d7e6f
          0x7b1d3f5a9c2e4b6d8f0a1c3e5a7b9d2f)) = None
   \<and> length (fst (snd (add_files_to_pbxproj [project_path \<mapsto> Text plain_manifest] True
          project_path
          0x123e4567e89b42d3a456426614174000 0x9f1c2a7be0d44c11b2a05c3e77d1a001
          0x5a0e6d3c1b2f4a9e8c7d6b5a49382716 0x0c8d7e6f5a4b4c3d9e2f1a0b9c8d7e6f
          0x7b1d3f5a9c2e4b6d8f0a1c3e5a7b9d2f))) = 4"
  by (simp add: add_files_to_pbxproj_def Let_def)

section \<open>A manifest without anchors (C7)\<close>

lemma universal_newlines_no_cr: "CHR 0x0D \<notin> set s \<Longrightarrow> universal_newlines s = s"
  by (induction s rule: universal_newlines.induct) auto

text \<open>
  Claim C7, as the code has it. The file is read and written in text mode. When the text
  read (after CR LF and CR have become LF) holds none of the three markers and neither
  listing pattern matches it, every step is a no-op and the text written is the text read.
  The file itself is as before when it holds no CR; a CR LF or CR line end is written back
  as LF.
\<close>

theorem no_anchor_output_equals_input:
  assumes "files p = Some (Text stored)"
    and "content = universal_newlines stored"
    and "\<not> sublist build_marker content"
    and "\<not> sublist file_ref_marker content"
    and "\<not> sublist group_marker content"
    and "search_listing any_id ''Features'' ''children'' content = None"
    and "search_listing any_id ''Sources'' ''files'' content = None"
  shows "fst (add_files_to_pbxproj files enc p r1 r2 r3 r4 r5) = files(p \<mapsto> Text content)
     \<and> (CHR 0x0D \<notin> set stored \<longrightarrow> fst (add_files_to_pbxproj files enc p r1 r2 r3 r4 r5) = files)"
proof -
  have "patch (generate_uuids r1 r2 r3 r4 r5) content = content"
    using assms(3-)
    by (simp add: patch_eq add_build_files_def add_file_refs_def add_group_def add_to_features_def
        add_to_sources_def insert_after_absent find_lit_None append_members_absent)
  then have 1: "fst (add_files_to_pbxproj files enc p r1 r2 r3 r4 r5) = files(p \<mapsto> Text content)"
    unfolding add_files_to_pbxproj_Text [of files p stored, OF assms(1)] assms(2) by simp
  have "files(p \<mapsto> Text content) = files" if "CHR 0x0D \<notin> set stored"
    using assms(1,2) universal_newlines_no_cr [OF that] by (simp add: map_upd_triv)
  with 1 show ?thesis by simp
qed

lemma plain_manifest_no_anchor:
  "find_lit build_marker plain_manifest = None"
  "find_lit file_ref_marker plain_manifest = None"
  "find_lit group_marker plain_manifest = None"
  "search_listing any_id ''Features'' ''children'' plain_manifest = None"
  "search_listing any_id ''Sources'' ''files'' plain_manifest = None"
  by (simp_all add: plain_manifest_def group_marker_def build_marker_def file_ref_marker_def
      match_here_def)

theorem no_anchor_output_equals_input_witness:
  "[project_path \<mapsto> Text plain_manifest] project_path = Some (Text plain_manifest)
   \<and> plain_manifest = universal_newlines plain_manifest
   \<and> \<not> sublist build_marker plain_manifest
   \<and> \<not> sublist file_ref_marker plain_manifest
   \<and> \<not> sublist group_marker plain_manifest
   \<and> search_listing any_id ''Features'' ''children'' plain_manifest = None
   \<and> search_listing any_id ''Sources'' ''files'' plain_manifest = None
   \<and> CHR 0x0D \<notin> set plain_manifest
   \<and> fst (add_files_to_pbxproj [project_path \<mapsto> Text plain_manifest] True project_path
        0x123e4567e89b42d3a456426614174000 0x9f1c2a7be0d44c11b2a05c3e77d1a001
        0x5a0e6d3c1b2f4a9e8c7d6b5a49382716 0x0c8d7e6f5a4b4c3d9e2f1a0b9c8d7e6f
        0x7b1d3f5a9c2e4b6d8f0a1c3e5a7b9d2f)
        = [project_path \<mapsto> Text plain_manifest]"
proof -
  have h: "[project_path \<mapsto> Text plain_manifest] project_path = Some (Text plain_manifest)"
    by simp
  have c: "CHR 0x0D \<notin> set plain_manifest" by (simp add: plain_manifest_def)
  have e: "plain_manifest = universal_newlines plain_manifest"
    using universal_newlines_no_cr [OF c] by simp
  have a: "\<not> sublist build_marker plain_manifest" "\<not> sublist file_ref_marker plain_manifest"
    "\<not> sublist group_marker plain_manifest"
    unfolding find_lit_None [symmetric] by (simp_all add: plain_manifest_no_anchor)
  note b = plain_manifest_no_anchor(4,5)
  from no_anchor_output_equals_input
    [of "[project_path \<mapsto> Text plain_manifest]" project_path plain_manifest plain_manifest
      True "0x123e4567e89b42d3a456426614174000" "0x9f1c2a7be0d44c11b2a05c3e77d1a001"
      "0x5a0e6d3c1b2f4a9e8c7d6b5a49382716" "0x0c8d7e6f5a4b4c3d9e2f1a0b9c8d7e6f"
      "0x7b1d3f5a9c2e4b6d8f0a1c3e5a7b9d2f", OF h e a b]
    h e a b c
  show ?thesis by blast
qed

text \<open>
  A manifest with no anchor and a CR LF line end: every hypothesis above holds, and the
  file written differs from the file read.
\<close>

theorem crlf_not_identical_counterexample:
  "\<not> sublist build_marker (universal_newlines crlf_manifest)
   \<and> \<not> sublist file_ref_marker (universal_newlines crlf_manifest)
   \<and> \<not> sublist group_marker (universal_newlines crlf_manifest)
   \<and> search_listing any_id ''Features'' ''children'' (universal_newlines crlf_manifest) = None
   \<and> search_listing any_id ''Sources'' ''files'' (universal_newlines crlf_manifest) = None
   \<and> fst (add_files_to_pbxproj [project_path \<mapsto> Text crlf_manifest] True project_path
        0x123e4567e89b42d3a456426614174000 0x9f1c2a7be0d44c11b2a05c3e77d1a001
        0x5a0e6d3c1b2f4a9e8c7d6b5a49382716 0x0c8d7e6f5a4b4c3d9e2f1a0b9c8d7e6f
        0x7b1d3f5a9c2e4b6d8f0a1c3e5a7b9d2f) project_path
       = Some (Text (''// !$*UTF8*$!'' @ [CHR 0x0A]))
   \<and> Text (''// !$*UTF8*$!'' @ [CHR 0x0A]) \<noteq> Text crlf_manifest"
proof -
  have u: "universal_newlines crlf_manifest = ''// !$*UTF8*$!'' @ [CHR 0x0A]"
    by (simp add: crlf_manifest_def)
  have f: "find_lit build_marker (''// !$*UTF8*$!'' @ [CHR 0x0A]) = None"
    "find_lit file_ref_marker (''// !$*UTF8*$!'' @ [CHR 0x0A]) = None"
    "find_lit group_marker (''// !$*UTF8*$!'' @ [CHR 0x0A]) = None"
    "search_listing any_id ''Features'' ''children'' (''// !$*UTF8*$!'' @ [CHR 0x0A]) = None"
    "search_listing any_id ''Sources'' ''files'' (''// !$*UTF8*$!'' @ [CHR 0x0A]) = None"
    by (simp_all add: group_marker_def build_marker_def file_ref_marker_def match_here_def)
  have a: "\<not> sublist build_marker (universal_newlines crlf_manifest)"
    "\<not> sublist file_ref_marker (universal_newlines crlf_manifest)"
    "\<not> sublist group_marker (universal_newlines crlf_manifest)"
    unfolding find_lit_None [symmetric] u by (simp_all only: f)
  have p: "patch u (universal_newlines crlf_manifest) = ''// !$*UTF8*$!'' @ [CHR 0x0A]" for u
    unfolding u
    by (simp only: patch_eq add_build_files_def add_file_refs_def add_group_def add_to_features_def
        add_to_sources_def insert_after_absent append_members_absent f)
  have "fst (add_files_to_pbxproj [project_path \<mapsto> Text crlf_manifest] True project_path
        0x123e4567e89b42d3a456426614174000 0x9f1c2a7be0d44c11b2a05c3e77d1a001
        0x5a0e6d3c1b2f4a9e8c7d6b5a49382716 0x0c8d7e6f5a4b4c3d9e2f1a0b9c8d7e6f
        0x7b1d3f5a9c2e4b6d8f0a1c3e5a7b9d2f) project_path
       = Some (Text (''// !$*UTF8*$!'' @ [CHR 0x0A]))"
    by (subst add_files_to_pbxproj_Text [of _ _ crlf_manifest]) (simp_all add: p)
  moreover have "Text (''// !$*UTF8*$!'' @ [CHR 0x0A]) \<noteq> Text crlf_manifest"
    by (simp add: crlf_manifest_def)
  ultimately show ?thesis using a f(4,5) u by simp
qed

section \<open>Texts that a replacement clears of a pattern\<close>

lemma sublist_split_hd:
  assumes "sublist xs (ys @ zs)" "zs \<noteq> []" "hd zs \<notin> set xs"
  shows "sublist xs ys \<or> sublist xs zs"
proof -
  from assms(1) consider "sublist xs ys" | "sublist xs zs"
    | xs1 xs2 where "xs = xs1 @ xs2" "suffix xs1 ys" "prefix xs2 zs"
    unfolding sublist_append by blast
  then show ?thesis
  proof cases
    case 3
    show ?thesis
    proof (cases "xs2 = []")
      case True
      with 3 show ?thesis by auto
    next
      case False
      with 3(3) assms(2) have "hd xs2 = hd zs"
        by (auto simp: prefix_def)
      with False 3(1) have "hd zs \<in> set xs"
        by (metis hd_in_set in_set_conv_decomp set_append UnCI)
      with assms(3) show ?thesis by blast
    qed
  qed blast+
qed

lemma sublist_split_last:
  assumes "sublist xs (ys @ zs)" "ys \<noteq> []" "last ys \<notin> set xs"
  shows "sublist xs ys \<or> sublist xs zs"
proof -
  from assms(1) consider "sublist xs ys" | "sublist xs zs"
    | xs1 xs2 where "xs = xs1 @ xs2" "suffix xs1 ys" "prefix xs2 zs"
    unfolding sublist_append by blast
  then show ?thesis
  proof cases
    case 3
    show ?thesis
    proof (cases "xs1 = []")
      case True
      with 3 show ?thesis by auto
    next
      case False
      with 3(2) assms(2) have "last xs1 = last ys"
        by (auto simp: suffix_def)
      with False 3(1) have "last ys \<in> set xs"
        by (metis last_in_set set_append UnCI)
      with assms(3) show ?thesis by blast
    qed
  qed blast+
qed

lemma not_sublist_join:
  assumes "pat \<noteq> []" "new \<noteq> []" "hd new \<notin> set pat" "last new \<notin> set pat"
    and "\<not> sublist pat new" and "\<forall>p\<in>set ps. \<not> sublist pat p"
  shows "\<not> sublist pat (join new ps)"
  using assms(6)
proof (induction ps rule: induct_list012)
  case 1
  show ?case using assms(1) by simp
next
  case (2 p)
  then show ?case by simp
next
  case (3 p q ps)
  note h = assms(2-5)
  have r: "\<not> sublist pat (join new (q # ps))"
    using 3 by simp
  have "\<not> sublist pat (new @ join new (q # ps))"
    using sublist_split_last [of pat new "join new (q # ps)"] h r by blast
  moreover have "hd (new @ join new (q # ps)) \<notin> set pat" "new @ join new (q # ps) \<noteq> []"
    using h by simp_all
  ultimately have "\<not> sublist pat (p @ new @ join new (q # ps))"
    using sublist_split_hd [of pat p "new @ join new (q # ps)"] 3(3) by auto
  then show ?case by simp
qed

lemma split_on_char_pieces:
  "p \<in> set (split_on [c] s) \<Longrightarrow> c \<notin> set p"
proof (induction "[c]" s arbitrary: p rule: split_on.induct)
  case 1
  then show ?case by simp
next
  case (2 x xs)
  show ?case
  proof (cases "prefix [c] (x # xs)")
    case True
    with 2(3) have "p = [] \<or> p \<in> set (split_on [c] (drop (length [c]) (x # xs)))"
      by auto
    with 2(1) True show ?thesis by auto
  next
    case False
    then have xc: "x \<noteq> c" by simp
    obtain q qs where s: "split_on [c] xs = q # qs"
      using split_on_not_Nil [of "[c]" xs] by (cases "split_on [c] xs") auto
    with 2(3) False have "p = x # q \<or> p \<in> set qs" by auto
    moreover have "c \<notin> set q" "\<forall>r\<in>set qs. c \<notin> set r"
      using 2(2) False s by auto
    ultimately show ?thesis using xc by auto
  qed
qed

lemma replace_char_clears:
  assumes "pat \<noteq> []" "new \<noteq> []" "hd new \<notin> set pat" "last new \<notin> set pat"
    and "\<not> sublist pat new" and "c \<in> set pat"
  shows "\<not> sublist pat (replace_all [c] new s)"
proof -
  have "\<forall>p\<in>set (split_on [c] s). \<not> sublist pat p"
    using split_on_char_pieces [of _ c s] assms(6) set_mono_sublist [of pat] by blast
  from not_sublist_join [OF assms(1-5) this] show ?thesis
    by (simp add: replace_all_join)
qed


section \<open>Guarded steps (C3)\<close>

lemma find_lit_least:
  "find_lit pat s = Some i \<Longrightarrow> prefix pat (drop j s) \<Longrightarrow> j \<le> length s \<Longrightarrow> i \<le> j"
proof (induction s arbitrary: i j)
  case Nil
  then show ?case by (simp split: if_splits)
next
  case (Cons x xs)
  show ?case
  proof (cases "prefix pat (x # xs)")
    case True
    with Cons.prems(1) show ?thesis by simp
  next
    case False
    with Cons.prems(1) obtain i' where i': "find_lit pat xs = Some i'" "i = Suc i'" by auto
    from False Cons.prems(2) obtain j' where j': "j = Suc j'"
      by (cases j) auto
    with Cons.prems(2,3) have "prefix pat (drop j' xs)" "j' \<le> length xs" by simp_all
    from Cons.IH [OF i'(1) this] i'(2) j' show ?thesis by simp
  qed
qed

lemma find_lit_first:
  assumes "pat \<noteq> []" and "\<not> sublist pat (a @ butlast pat)"
  shows "find_lit pat (a @ pat @ b) = Some (length a)"
proof -
  let ?s = "a @ pat @ b"
  have "sublist pat ?s" by simp
  then obtain i where i: "find_lit pat ?s = Some i"
    using find_lit_None [of pat ?s] by (cases "find_lit pat ?s") auto
  have "prefix pat (drop (length a) ?s)" by simp
  from find_lit_least [OF i this] have le: "i \<le> length a" by simp
  have "i = length a"
  proof (rule ccontr)
    assume "i \<noteq> length a"
    with le have lt: "i < length a" by simp
    let ?t = "a @ butlast pat"
    have s: "?s = ?t @ (last pat # b)"
      using assms(1) by simp
    from find_lit_Some [OF i] have tk: "take (length pat) (drop i ?s) = pat" by blast
    have "i + length pat \<le> length ?t"
      using lt assms(1) by (cases pat) simp_all
    then have "take (length pat) (drop i ?s) = take (length pat) (drop i ?t)"
      unfolding s by simp
    with tk have "take (length pat) (drop i ?t) = pat" by simp
    then have "prefix pat (drop i ?t)"
      by (metis take_is_prefix)
    then obtain zs where "drop i ?t = pat @ zs" by (auto simp: prefix_def)
    then have "?t = take i ?t @ pat @ zs"
      by (metis append_take_drop_id)
    then have "sublist pat ?t" unfolding sublist_def by blast
    with assms(2) show False by blast
  qed
  with i show ?thesis by simp
qed

lemma insert_after_first:
  assumes "marker \<noteq> []" and "\<not> sublist marker (a @ butlast marker)"
  shows "insert_after marker entries (a @ marker @ b) = a @ marker @ entries @ b"
  using insert_after_present [OF find_lit_first [OF assms, of b], of entries] by simp

lemma not_hexU_not_in: "list_all hexU i \<Longrightarrow> \<not> hexU x \<Longrightarrow> x \<notin> set i"
  by (auto simp: list_all_iff)

lemma not_hexU_chars:
  "\<not> hexU CHR ''g''" "\<not> hexU CHR ''{''" "\<not> hexU CHR ''*''" "\<not> hexU CHR '' ''"
  by (simp_all add: hexU_def)

lemma group_member_ends:
  "group_member u \<noteq> []" "hd (group_member u) = CHR 0x0A" "last (group_member u) = CHR '',''"
  by (simp_all add: group_member_def nl4_def)

lemma group_member_chars:
  assumes "valid_uuids u"
  shows "CHR ''g'' \<notin> set (group_member u)" "CHR ''{'' \<notin> set (group_member u)"
  using valid_uuidsD [OF assms]
  by (simp_all add: group_member_def nl4_def not_hexU_not_in not_hexU_chars)

text \<open>
  Claim C3, as the code has it. A run that reads the file does not fail for a missing
  anchor: it writes the text that the five steps produce, one after the other, and ends
  without an exception when the console takes the last line. Each step is guarded by its
  own search on the text that the steps before it have produced. On a text without its
  anchor the step returns the text as it is. On a text with its anchor the step is
  applied: the entries go in right after the first occurrence of the marker, and the
  captured listing text is rewritten at every occurrence. An anchor of the manifest read
  need not be there any more when its step runs: an earlier step can have rewritten it.
\<close>

theorem steps_independently_guarded:
  assumes "files p = Some (Text stored)"
  shows "let u = generate_uuids r1 r2 r3 r4 r5; content = universal_newlines stored in
     fst (add_files_to_pbxproj files enc p r1 r2 r3 r4 r5)
       = files(p \<mapsto> Text (add_to_sources u (add_group u (add_to_features u
                (add_file_refs u (add_build_files u content))))))
     \<and> snd (snd (add_files_to_pbxproj files True p r1 r2 r3 r4 r5)) = None
     \<and> (\<forall>x. (\<not> sublist build_marker x \<longrightarrow> add_build_files u x = x)
            \<and> (\<not> sublist file_ref_marker x \<longrightarrow> add_file_refs u x = x)
            \<and> (search_listing any_id ''Features'' ''children'' x = None \<longrightarrow> add_to_features u x = x)
            \<and> (\<not> sublist group_marker x \<longrightarrow> add_group u x = x)
            \<and> (search_listing any_id ''Sources'' ''files'' x = None \<longrightarrow> add_to_sources u x = x))
     \<and> (\<forall>a b. (\<not> sublist build_marker (a @ butlast build_marker)
                  \<longrightarrow> add_build_files u (a @ build_marker @ b)
                        = a @ build_marker @ build_entries u @ b)
            \<and> (\<not> sublist file_ref_marker (a @ butlast file_ref_marker)
                  \<longrightarrow> add_file_refs u (a @ file_ref_marker @ b)
                        = a @ file_ref_marker @ file_entries u @ b)
            \<and> (\<not> sublist group_marker (a @ butlast group_marker)
                  \<longrightarrow> add_group u (a @ group_marker @ b)
                        = a @ group_marker @ group_entry u @ b))
     \<and> (\<forall>x owner existing.
              (search_listing any_id ''Features'' ''children'' x = Some (owner, existing)
                 \<longrightarrow> add_to_features u x
                       = join (rstrip existing @ group_member u) (split_on existing x))
            \<and> (search_listing any_id ''Sources'' ''files'' x = Some (owner, existing)
                 \<longrightarrow> add_to_sources u x
                       = join (rstrip existing @ sources_members u) (split_on existing x)))"
proof -
  let ?u = "generate_uuids r1 r2 r3 r4 r5"
  have ne: "build_marker \<noteq> []" "file_ref_marker \<noteq> []" "group_marker \<noteq> []"
    by (simp_all add: build_marker_def file_ref_marker_def group_marker_def)
  have app: "append_members label key members x = join (rstrip g @ members) (split_on g x)"
    if "search_listing any_id label key x = Some (owner, g)" for label key members x owner g
  proof -
    from search_listing_shape [OF that] have "g \<noteq> []" by blast
    then show ?thesis using that by (simp add: append_members_eq replace_all_join)
  qed
  have 1: "fst (add_files_to_pbxproj files enc p r1 r2 r3 r4 r5)
       = files(p \<mapsto> Text (add_to_sources ?u (add_group ?u (add_to_features ?u
                (add_file_refs ?u (add_build_files ?u (universal_newlines stored)))))))"
    unfolding add_files_to_pbxproj_Text [of files p stored, OF assms] by (simp add: patch_eq)
  have 2: "snd (snd (add_files_to_pbxproj files True p r1 r2 r3 r4 r5)) = None"
    unfolding add_files_to_pbxproj_Text [of files p stored, OF assms] by simp
  have 3: "\<not> sublist build_marker x \<longrightarrow> add_build_files ?u x = x"
    "\<not> sublist file_ref_marker x \<longrightarrow> add_file_refs ?u x = x"
    "search_listing any_id ''Features'' ''children'' x = None \<longrightarrow> add_to_features ?u x = x"
    "\<not> sublist group_marker x \<longrightarrow> add_group ?u x = x"
    "search_listing any_id ''Sources'' ''files'' x = None \<longrightarrow> add_to_sources ?u x = x" for x
    by (simp_all add: add_build_files_def add_file_refs_def add_group_def add_to_features_def
        add_to_sources_def insert_after_absent find_lit_None append_members_absent)
  have 4: "\<not> sublist build_marker (a @ butlast build_marker)
           \<longrightarrow> add_build_files ?u (a @ build_marker @ b) = a @ build_marker @ build_entries ?u @ b"
    "\<not> sublist file_ref_marker (a @ butlast file_ref_marker)
           \<longrightarrow> add_file_refs ?u (a @ file_ref_marker @ b) = a @ file_ref_marker @ file_entries ?u @ b"
    "\<not> sublist group_marker (a @ butlast group_marker)
           \<longrightarrow> add_group ?u (a @ group_marker @ b) = a @ group_marker @ group_entry ?u @ b" for a b
    unfolding add_build_files_def add_file_refs_def add_group_def
    using insert_after_first ne by blast+
  have 5: "search_listing any_id ''Features'' ''children'' x = Some (owner, existing)
           \<longrightarrow> add_to_features ?u x = join (rstrip existing @ group_member ?u) (split_on existing x)"
    "search_listing any_id ''Sources'' ''files'' x = Some (owner, existing)
           \<longrightarrow> add_to_sources ?u x = join (rstrip existing @ sources_members ?u) (split_on existing x)"
    for x owner existing
    unfolding add_to_features_def add_to_sources_def using app by blast+
  show ?thesis
    unfolding Let_def using 1 2 3 4 5 by blast
qed

lemma twin_groups_no_build_marker: "find_lit build_marker twin_groups = None"
  by code_simp

lemma plain_manifest_group_marker_first:
  "find_lit group_marker (plain_manifest @ butlast group_marker) = None"
  by code_simp

lemma twin_groups_no_cr: "universal_newlines twin_groups = twin_groups"
  by code_simp

theorem steps_independently_guarded_witness:
  "let u = generate_uuids 0x123e4567e89b42d3a456426614174000 0x9f1c2a7be0d44c11b2a05c3e77d1a001
          0x5a0e6d3c1b2f4a9e8c7d6b5a49382716 0x0c8d7e6f5a4b4c3d9e2f1a0b9c8d7e6f
          0x7b1d3f5a9c2e4b6d8f0a1c3e5a7b9d2f in
   [project_path \<mapsto> Text twin_groups] project_path = Some (Text twin_groups)
   \<and> fst (add_files_to_pbxproj [project_path \<mapsto> Text twin_groups] True project_path
          0x123e4567e89b42d3a456426614174000 0x9f1c2a7be0d44c11b2a05c3e77d1a001
          0x5a0e6d3c1b2f4a9e8c7d6b5a49382716 0x0c8d7e6f5a4b4c3d9e2f1a0b9c8d7e6f
          0x7b1d3f5a9c2e4b6d8f0a1c3e5a7b9d2f)
       = [project_path \<mapsto> Text twin_groups](project_path \<mapsto>
            Text (add_to_sources u (add_group u (add_to_features u
              (add_file_refs u (add_build_files u twin_groups))))))
   \<and> \<not> sublist build_marker twin_groups
   \<and> add_build_files u twin_groups = twin_groups
   \<and> \<not> sublist group_marker (plain_manifest @ butlast group_marker)
   \<and> add_group u (plain_manifest @ group_marker @ [])
       = plain_manifest @ group_marker @ group_entry u @ []
   \<and> search_listing any_id ''Features'' ''children'' twin_groups
       = Some (''7C6D5E4F3A2B1C0D9E8F7A6B'', ''A,'')
   \<and> add_to_features u twin_groups =
       ''7C6D5E4F3A2B1C0D9E8F7A6B /* Features */ = {isa = PBXGroup; children = (''
       @ ''A,'' @ group_member u
       @ ''); };8D7E6F5A4B3C2D1E0F9A8B7C /* Widgets */ = {isa = PBXGroup; children = (''
       @ ''A,'' @ group_member u
       @ ''); };''"
proof -
  let ?u = "generate_uuids 0x123e4567e89b42d3a456426614174000 0x9f1c2a7be0d44c11b2a05c3e77d1a001
          0x5a0e6d3c1b2f4a9e8c7d6b5a49382716 0x0c8d7e6f5a4b4c3d9e2f1a0b9c8d7e6f
          0x7b1d3f5a9c2e4b6d8f0a1c3e5a7b9d2f"
  have h: "[project_path \<mapsto> Text twin_groups] project_path = Some (Text twin_groups)"
    by simp
  note t = steps_independently_guarded [of "[project_path \<mapsto> Text twin_groups]" project_path
      twin_groups "0x123e4567e89b42d3a456426614174000" "0x9f1c2a7be0d44c11b2a05c3e77d1a001" "0x5a0e6d3c1b2f4a9e8c7d6b5a49382716" "0x0c8d7e6f5a4b4c3d9e2f1a0b9c8d7e6f" "0x7b1d3f5a9c2e4b6d8f0a1c3e5a7b9d2f" True, OF h,
      unfolded Let_def twin_groups_no_cr]
  have a: "\<not> sublist build_marker twin_groups"
    unfolding find_lit_None [symmetric] by (rule twin_groups_no_build_marker)
  have b: "\<not> sublist group_marker (plain_manifest @ butlast group_marker)"
    unfolding find_lit_None [symmetric] by (rule plain_manifest_group_marker_first)
  from t have 1: "fst (add_files_to_pbxproj [project_path \<mapsto> Text twin_groups] True project_path
          0x123e4567e89b42d3a456426614174000 0x9f1c2a7be0d44c11b2a05c3e77d1a001
          0x5a0e6d3c1b2f4a9e8c7d6b5a49382716 0x0c8d7e6f5a4b4c3d9e2f1a0b9c8d7e6f
          0x7b1d3f5a9c2e4b6d8f0a1c3e5a7b9d2f)
       = [project_path \<mapsto> Text twin_groups](project_path \<mapsto>
            Text (add_to_sources ?u (add_group ?u (add_to_features ?u
              (add_file_refs ?u (add_build_files ?u twin_groups))))))"
    by blast
  from t a have 2: "add_build_files ?u twin_groups = twin_groups" by blast
  from t b have 3: "add_group ?u (plain_manifest @ group_marker @ [])
       = plain_manifest @ group_marker @ group_entry ?u @ []"
    by blast
  from t twin_groups_match
  have "add_to_features ?u twin_groups
      = join (rstrip ''A,'' @ group_member ?u) (split_on ''A,'' twin_groups)"
    by blast
  then have 4: "add_to_features ?u twin_groups =
       ''7C6D5E4F3A2B1C0D9E8F7A6B /* Features */ = {isa = PBXGroup; children = (''
       @ ''A,'' @ group_member ?u
       @ ''); };8D7E6F5A4B3C2D1E0F9A8B7C /* Widgets */ = {isa = PBXGroup; children = (''
       @ ''A,'' @ group_member ?u
       @ ''); };''"
    unfolding twin_groups_split rstrip_comma by simp
  from h 1 a 2 b 3 twin_groups_match 4 show ?thesis
    unfolding Let_def by blast
qed

text \<open>
  The group marker is in the manifest read. The listing of the \<open>Features\<close> group is one
  blank, so the third step rewrites every blank of the text, those of the marker too: when
  the fourth step runs the marker is not there, and the step is skipped.
\<close>

lemma blank_listing_facts:
  "universal_newlines blank_listing = blank_listing"
  "find_lit build_marker blank_listing = None"
  "find_lit file_ref_marker blank_listing = None"
  by code_simp+

lemma blank_listing_match:
  "search_listing any_id ''Features'' ''children'' blank_listing
     = Some (''7C6D5E4F3A2B1C0D9E8F7A6B'', '' '')"
  by code_simp

theorem anchor_rewritten_counterexample:
  "let u = generate_uuids 0x123e4567e89b42d3a456426614174000 0x9f1c2a7be0d44c11b2a05c3e77d1a001
          0x5a0e6d3c1b2f4a9e8c7d6b5a49382716 0x0c8d7e6f5a4b4c3d9e2f1a0b9c8d7e6f
          0x7b1d3f5a9c2e4b6d8f0a1c3e5a7b9d2f;
       c3 = add_to_features u (add_file_refs u (add_build_files u (universal_newlines blank_listing)))
   in sublist group_marker (universal_newlines blank_listing)
      \<and> \<not> sublist group_marker c3
      \<and> add_group u c3 = c3"
proof -
  let ?u = "generate_uuids 0x123e4567e89b42d3a456426614174000 0x9f1c2a7be0d44c11b2a05c3e77d1a001
          0x5a0e6d3c1b2f4a9e8c7d6b5a49382716 0x0c8d7e6f5a4b4c3d9e2f1a0b9c8d7e6f
          0x7b1d3f5a9c2e4b6d8f0a1c3e5a7b9d2f"
  let ?c3 = "add_to_features ?u (add_file_refs ?u (add_build_files ?u (universal_newlines blank_listing)))"
  have v: "valid_uuids ?u" by (rule valid_generate_uuids)
  have "blank_listing
      = ''7C6D5E4F3A2B1C0D9E8F7A6B /* Features */ = {isa = PBXGroup; children = ( ); };'' @ group_marker"
    by (simp add: blank_listing_def group_marker_def)
  then have 1: "sublist group_marker (universal_newlines blank_listing)"
    unfolding blank_listing_facts(1) by (metis sublist_append_leftI)
  have "rstrip '' '' = []" by (simp add: rstrip_def isspace_def)
  then have c3: "?c3 = replace_all '' '' (group_member ?u) blank_listing"
    unfolding blank_listing_facts(1)
    by (simp add: add_build_files_def add_file_refs_def insert_after_absent blank_listing_facts
        add_to_features_def append_members_eq blank_listing_match)
  have g: "group_marker \<noteq> []" "CHR 0x0A \<notin> set group_marker" "CHR '','' \<notin> set group_marker"
    "CHR ''g'' \<in> set group_marker" "CHR '' '' \<in> set group_marker"
    by (simp_all add: group_marker_def)
  have "\<not> sublist group_marker (group_member ?u)"
    using set_mono_sublist [of group_marker "group_member ?u"] g(4) group_member_chars(1) [OF v]
    by blast
  then have 2: "\<not> sublist group_marker ?c3"
    unfolding c3 using g group_member_ends [of ?u]
    by (intro replace_char_clears) simp_all
  then have 3: "add_group ?u ?c3 = ?c3"
    by (simp add: add_group_def insert_after_absent find_lit_None)
  from 1 2 3 show ?thesis unfolding Let_def by blast
qed

section \<open>Balance of the manifest written\<close>





















end
